theory Spec2Isabelle
  imports Complex_Main
begin

section \<open>Text post-processing\<close>

text \<open>
  A Python \<open>str\<close> is a sequence of Unicode code points and is modelled as a list of
  naturals; \<open>lit\<close> gives the \<open>str\<close> of a literal of the source, whose characters are all
  below 128.
\<close>

type_synonym str = "nat list"

definition lit :: "string \<Rightarrow> str" where
  "lit s = map of_char s"

text \<open>
  \<open>str.isspace()\<close> on one code point, which is also what \<open>str.strip()\<close> removes: the
  29 code points of bidirectional class WS, B or S or of category Zs.
\<close>

definition isspace :: "nat \<Rightarrow> bool" where
  "isspace c =
     ((9 \<le> c \<and> c \<le> 13) \<or> (28 \<le> c \<and> c \<le> 32) \<or> c = 133 \<or> c = 160 \<or> c = 5760
      \<or> (8192 \<le> c \<and> c \<le> 8202) \<or> c = 8232 \<or> c = 8233 \<or> c = 8239 \<or> c = 8287
      \<or> c = 12288)"

text \<open>
  \<open>str.upper()\<close> on one code point gives one or more code points (\<open>U+00DF\<close> gives "SS").
  Below 128 it maps \<open>a\<close>..\<open>z\<close> to \<open>A\<close>..\<open>Z\<close> and leaves the rest alone. From 128 on it is
  the case mapping of the Unicode database of the Python runtime, which is not part of
  the source: the model takes it as the parameter \<open>tbl\<close>.
\<close>

definition upper :: "(nat \<Rightarrow> str) \<Rightarrow> nat \<Rightarrow> str" where
  "upper tbl c = (if c < 128 then (if 97 \<le> c \<and> c \<le> 122 then [c - 32] else [c]) else tbl c)"

definition strip :: "str \<Rightarrow> str" where
  "strip s = rev (dropWhile isspace (rev (dropWhile isspace s)))"

text \<open>\<open>ch in ".?!"\<close> for a single character \<open>ch\<close>.\<close>

definition terminal :: "nat \<Rightarrow> bool" where
  "terminal ch = (ch \<in> set (lit ''.?!''))"

text \<open>
  \<open>auto_punctuate\<close> (main.py, lines 64 to 75). The guard \<open>if not t: return t\<close> comes before
  \<open>t[0]\<close> is read, and \<open>t[-1]\<close> is read only of a text that holds one of the three marks,
  so neither index is ever out of range.
\<close>

definition auto_punctuate :: "(nat \<Rightarrow> str) \<Rightarrow> str \<Rightarrow> str" where
  "auto_punctuate tbl text =
     (let t = strip text in
      if t = [] then t
      else
        let t = upper tbl (hd t) @ tl t in
        if \<not> (\<exists>ch \<in> set (lit ''.?!''). ch \<in> set t) then t @ lit ''.''
        else if \<not> terminal (last t) then t @ lit ''.''
        else t)"

text \<open>
  The result as the specification words it: the stripped text with its first character
  capitalised, its interior unchanged, and a period appended exactly when it does not
  end in a period, a question mark or an exclamation mark.
\<close>

definition punctuated :: "(nat \<Rightarrow> str) \<Rightarrow> str \<Rightarrow> str" where
  "punctuated tbl s =
     (let t = strip s in
      (case t of [] \<Rightarrow> [] | c # cs \<Rightarrow> upper tbl c @ cs)
      @ (if t \<noteq> [] \<and> terminal (last t) then [] else lit ''.''))"

text \<open>
  What the proofs below use of the case mapping from 128 on. For a code point that is
  not whitespace the result is not empty, does not begin with whitespace, begins with a
  code point that \<open>str.upper()\<close> leaves alone, and does not end in one of the three marks.
\<close>

definition upper_table :: "(nat \<Rightarrow> str) \<Rightarrow> bool" where
  "upper_table tbl =
     (\<forall>c. 128 \<le> c \<and> \<not> isspace c \<longrightarrow>
        tbl c \<noteq> [] \<and> \<not> isspace (hd (tbl c)) \<and> upper tbl (hd (tbl c)) = [hd (tbl c)]
        \<and> \<not> terminal (last (tbl c)))"

text \<open>
  A table with the case mapping of the code points 128 to 255 as \<open>str.upper()\<close> has it;
  above 255 it leaves the code point alone, which is not claimed of Python.
\<close>

definition latin1_upper :: "nat \<Rightarrow> str" where
  "latin1_upper c =
     (if c = 181 then [924]
      else if c = 223 then [83, 83]
      else if 224 \<le> c \<and> c \<le> 254 \<and> c \<noteq> 247 then [c - 32]
      else if c = 255 then [376]
      else [c])"

section \<open>Audio samples\<close>

text \<open>
  A sample is a finite single-precision value, modelled as the rational it denotes.
  The stream delivers blocks of shape (frames, channels): a block is a list of rows, and a
  row holds one sample per channel. \<open>float32\<close> rounds a rational to the nearest value with
  a 24-bit significand (ties to even, gradual underflow below \<open>2 powi (-126)\<close>) and does
  not overflow; \<open>np_mean\<close> adds a row up from left to right, as numpy does for fewer than
  eight elements. The theorems on the values of the samples therefore assume rows of the
  stream's width, fewer than eight channels and samples between -1 and 1, where numpy
  meets neither an infinity nor a NaN.
\<close>

type_synonym sample = rat
type_synonym block = "sample list list"

fun bit_length :: "nat \<Rightarrow> nat" where
  "bit_length n = (if n = 0 then 0 else Suc (bit_length (n div 2)))"

definition exponent :: "rat \<Rightarrow> int" where
  "exponent x =
     (let (p, q) = quotient_of \<bar>x\<bar>;
          e = int (bit_length (nat p)) - int (bit_length (nat q))
      in if 2 powi e \<le> \<bar>x\<bar> then e else e - 1)"

definition round_half_even :: "rat \<Rightarrow> int" where
  "round_half_even x =
     (let f = \<lfloor>x\<rfloor>; d = x - of_int f
      in if d < 1 / 2 then f else if 1 / 2 < d then f + 1 else if even f then f else f + 1)"

definition float32 :: "rat \<Rightarrow> sample" where
  "float32 x =
     (if x = 0 then 0
      else let ulp = 2 powi (max (exponent x) (- 126) - 23)
           in of_int (round_half_even (x / ulp)) * ulp)"

text \<open>The unit in the last place that \<open>float32\<close> rounds to.\<close>

definition ulp :: "rat \<Rightarrow> rat" where
  "ulp x = 2 powi (max (exponent x) (- 126) - 23)"

text \<open>\<open>np.mean(audio, axis=1)\<close> on one row: the sum and the quotient are single precision.\<close>

definition np_mean :: "sample list \<Rightarrow> sample" where
  "np_mean row = float32 (foldl (\<lambda>a x. float32 (a + x)) 0 row / of_nat (length row))"


section \<open>The audio recorder\<close>

text \<open>
  \<open>sd.InputStream(...)\<close> and the stream's \<open>start\<close>, \<open>stop\<close> and \<open>close\<close> are calls into
  the audio library; each of them can raise. What the device does at a call is an input
  of the model: \<open>start_outcome\<close> for \<open>AudioRecorder.start\<close>, \<open>stop_outcome\<close> for
  \<open>AudioRecorder.stop_and_get_audio\<close>.
\<close>

datatype error = DeviceError | IndexError | ModelError

datatype start_outcome = OpenRaises | StartRaises | Started

datatype stop_outcome = StopRaises | Stopped

text \<open>A stream object, and whether its \<open>start()\<close> has returned normally.\<close>

datatype input_stream = InputStream (running: bool)

record AudioRecorder =
  samplerate :: nat
  channels :: nat
  queue :: "block list"
  stream :: "input_stream option"

definition new_recorder :: AudioRecorder where
  "new_recorder = \<lparr>samplerate = 16000, channels = 1, queue = [], stream = None\<rparr>"

text \<open>The callback runs on the audio thread, and only for a stream that was started.\<close>

definition callback :: "block \<Rightarrow> AudioRecorder \<Rightarrow> AudioRecorder" where
  "callback indata r = r\<lparr>queue := queue r @ [indata]\<rparr>"

text \<open>
  \<open>AudioRecorder.start\<close> (lines 96 to 110). The stream object is assigned to \<open>_stream\<close>
  before its \<open>start()\<close> is called, so it stays assigned when that call raises.
\<close>

definition start :: "start_outcome \<Rightarrow> AudioRecorder \<Rightarrow> (error + unit) \<times> AudioRecorder" where
  "start dev r =
     (if stream r \<noteq> None then (Inr (), r)
      else
        let r = r\<lparr>queue := []\<rparr> in
        case dev of
          OpenRaises \<Rightarrow> (Inl DeviceError, r)
        | StartRaises \<Rightarrow> (Inl DeviceError, r\<lparr>stream := Some (InputStream False)\<rparr>)
        | Started \<Rightarrow> (Inr (), r\<lparr>stream := Some (InputStream True)\<rparr>))"

text \<open>
  \<open>AudioRecorder.stop_and_get_audio\<close> (lines 112 to 135). \<open>audio[:, 0]\<close> raises IndexError
  on rows without a first column.
\<close>

definition stop_and_get_audio ::
  "stop_outcome \<Rightarrow> AudioRecorder \<Rightarrow> (error + sample list option) \<times> AudioRecorder" where
  "stop_and_get_audio dev r =
     (if stream r = None then (Inr None, r)
      else if dev = StopRaises then (Inl DeviceError, r)
      else
        let frames = queue r; r = r\<lparr>stream := None, queue := []\<rparr> in
        if frames = [] then (Inr None, r)
        else
          let audio = concat frames in
          if channels r > 1 then (Inr (Some (map float32 (map np_mean audio))), r)
          else if [] \<in> set audio then (Inl IndexError, r)
          else (Inr (Some (map float32 (map hd audio))), r))"

section \<open>The controller\<close>

text \<open>
  The configuration is the dictionary read from config.json; of the JSON values only
  null, booleans and strings are modelled. \<open>dict_get\<close> is \<open>dict.get(key, default)\<close> and
  \<open>truthy\<close> is Python's truth value.
\<close>

datatype json = JNull | JBool bool | JStr str

definition dict_get :: "(str \<times> json) list \<Rightarrow> str \<Rightarrow> json \<Rightarrow> json" where
  "dict_get d k dflt = (case map_of d k of None \<Rightarrow> dflt | Some v \<Rightarrow> v)"

fun truthy :: "json \<Rightarrow> bool" where
  "truthy JNull = False"
| "truthy (JBool b) = b"
| "truthy (JStr s) = (s \<noteq> [])"

text \<open>
  What the controller does, in the order in which it does it: the writes of the
  recording flag, the emissions of the two signals and the starts of worker threads.
\<close>

datatype action =
    SetRecording bool
  | EmitRecordingChanged bool
  | StartThread "sample list"
  | EmitTextReady str

text \<open>
  The signals are modelled by the lists of the values emitted so far, and the worker
  threads by the list of the clips they were spawned with; \<open>trace\<close> keeps all of it in
  program order.
\<close>

record VoicyController =
  config :: "(str \<times> json) list"
  recorder :: AudioRecorder
  recording :: bool
  recording_changed :: "bool list"
  text_ready :: "str list"
  workers :: "sample list list"
  trace :: "action list"

definition new_controller :: "(str \<times> json) list \<Rightarrow> VoicyController" where
  "new_controller cfg =
     \<lparr>config = cfg, recorder = new_recorder, recording = False,
      recording_changed = [], text_ready = [], workers = [], trace = []\<rparr>"

record device =
  on_start :: start_outcome
  on_stop :: stop_outcome

text \<open>\<open>_set_recording\<close> (lines 155 to 158): the flag is written, then the signal emitted.\<close>

definition set_recording :: "bool \<Rightarrow> VoicyController \<Rightarrow> VoicyController" where
  "set_recording v c =
     c\<lparr>recording := v, recording_changed := recording_changed c @ [v],
       trace := trace c @ [SetRecording v, EmitRecordingChanged v]\<rparr>"

text \<open>\<open>_start_recording\<close> (lines 176 to 181): the exception is caught and logged.\<close>

definition start_recording :: "device \<Rightarrow> VoicyController \<Rightarrow> VoicyController" where
  "start_recording dev c =
     (case start (on_start dev) (recorder c) of
        (Inl e, r) \<Rightarrow> c\<lparr>recorder := r\<rparr>
      | (Inr u, r) \<Rightarrow> set_recording True (c\<lparr>recorder := r\<rparr>))"

definition spawn :: "sample list \<Rightarrow> VoicyController \<Rightarrow> VoicyController" where
  "spawn audio c =
     c\<lparr>workers := workers c @ [audio], trace := trace c @ [StartThread audio]\<rparr>"

text \<open>\<open>_stop_and_transcribe\<close> (lines 183 to 196).\<close>

definition stop_and_transcribe :: "device \<Rightarrow> VoicyController \<Rightarrow> VoicyController" where
  "stop_and_transcribe dev c =
     (let c = set_recording False c;
          (res, r) = stop_and_get_audio (on_stop dev) (recorder c);
          c = c\<lparr>recorder := r\<rparr>;
          audio = (case res of Inl e \<Rightarrow> None | Inr a \<Rightarrow> a)
      in case audio of
           None \<Rightarrow> c
         | Some a \<Rightarrow> if length a = 0 then c else spawn a c)"

definition hold_to_talk_down :: "device \<Rightarrow> VoicyController \<Rightarrow> VoicyController" where
  "hold_to_talk_down dev c = (if recording c then c else start_recording dev c)"

definition hold_to_talk_up :: "device \<Rightarrow> VoicyController \<Rightarrow> VoicyController" where
  "hold_to_talk_up dev c = (if \<not> recording c then c else stop_and_transcribe dev c)"

definition toggle_recording :: "device \<Rightarrow> VoicyController \<Rightarrow> VoicyController" where
  "toggle_recording dev c =
     (if recording c then stop_and_transcribe dev c else start_recording dev c)"

text \<open>
  A run of the controller: calls of the three entry points, each with what the device
  does during the call, and blocks arriving from the audio thread in between.
\<close>

datatype event =
    HoldDown device
  | HoldUp device
  | Toggle device
  | Block block

fun step :: "VoicyController \<Rightarrow> event \<Rightarrow> VoicyController" where
  "step c (HoldDown dev) = hold_to_talk_down dev c"
| "step c (HoldUp dev) = hold_to_talk_up dev c"
| "step c (Toggle dev) = toggle_recording dev c"
| "step c (Block b) =
     (if stream (recorder c) = Some (InputStream True)
      then c\<lparr>recorder := callback b (recorder c)\<rparr> else c)"

definition run :: "VoicyController \<Rightarrow> event list \<Rightarrow> VoicyController" where
  "run c evs = foldl step c evs"

text \<open>
  The notifications a run owes: one for every event that changes the recording flag,
  carrying the new value.
\<close>

fun transitions :: "VoicyController \<Rightarrow> event list \<Rightarrow> bool list" where
  "transitions c [] = []"
| "transitions c (ev # evs) =
     (if recording (step c ev) \<noteq> recording c then [recording (step c ev)] else [])
     @ transitions (step c ev) evs"

text \<open>What a trace says was emitted, spawned and published.\<close>

fun notified :: "action list \<Rightarrow> bool list" where
  "notified [] = []"
| "notified (EmitRecordingChanged v # as) = v # notified as"
| "notified (a # as) = notified as"

fun started :: "action list \<Rightarrow> sample list list" where
  "started [] = []"
| "started (StartThread audio # as) = audio # started as"
| "started (a # as) = started as"

fun published :: "action list \<Rightarrow> str list" where
  "published [] = []"
| "published (EmitTextReady text # as) = text # published as"
| "published (a # as) = published as"

text \<open>The three lists of a controller are what its trace says.\<close>

definition agrees :: "VoicyController \<Rightarrow> bool" where
  "agrees c =
     (recording_changed c = notified (trace c) \<and> workers c = started (trace c)
      \<and> text_ready c = published (trace c))"

section \<open>The transcription worker\<close>

text \<open>The speech model is opaque: a clip and a language hint give segments, or it raises.\<close>

type_synonym whisper = "sample list \<Rightarrow> json option \<Rightarrow> error + str list"

fun join :: "str \<Rightarrow> str list \<Rightarrow> str" where
  "join sep [] = []"
| "join sep [x] = x"
| "join sep (x # y # ys) = x @ sep @ join sep (y # ys)"

text \<open>The language hint of lines 200 to 204: none for "auto".\<close>

definition lang_arg :: "(str \<times> json) list \<Rightarrow> json option" where
  "lang_arg cfg =
     (let lang_cfg = dict_get cfg (lit ''language'') (JStr (lit ''auto''))
      in if lang_cfg = JStr (lit ''auto'') then None else Some lang_cfg)"

text \<open>
  \<open>_transcribe_and_emit\<close> (lines 198 to 214). An exception of the model call is caught
  and logged.
\<close>

definition transcribe_and_emit ::
  "(nat \<Rightarrow> str) \<Rightarrow> whisper \<Rightarrow> sample list \<Rightarrow> VoicyController \<Rightarrow> VoicyController" where
  "transcribe_and_emit tbl model audio c =
     (case model audio (lang_arg (config c)) of
        Inl e \<Rightarrow> c
      | Inr text_parts \<Rightarrow>
          let text = strip (join (lit '' '') text_parts) in
          if text = [] then c
          else
            let text = (if truthy (dict_get (config c) (lit ''auto_punct'') (JBool True))
                        then auto_punctuate tbl text else text)
            in c\<lparr>text_ready := text_ready c @ [text],
                 trace := trace c @ [EmitTextReady text]\<rparr>)"

section \<open>Characters and stripping\<close>

lemma lit_marks: "lit ''.?!'' = [46, 63, 33]" and lit_period: "lit ''.'' = [46]"
  by (simp_all add: lit_def)

lemma terminal_iff: "terminal c = (c = 46 \<or> c = 63 \<or> c = 33)"
  by (auto simp add: terminal_def lit_marks)

lemma not_space_range: "33 \<le> c \<Longrightarrow> c \<le> 132 \<Longrightarrow> \<not> isspace c"
  by (simp add: isspace_def)

lemma not_space_latin: "161 \<le> c \<Longrightarrow> c \<le> 5759 \<Longrightarrow> \<not> isspace c"
  by (simp add: isspace_def)

lemma terminal_not_space: "terminal c \<Longrightarrow> \<not> isspace c"
  by (auto simp add: terminal_iff not_space_range)

lemma upper_ascii:
  "c < 128 \<Longrightarrow> upper tbl c = [if 97 \<le> c \<and> c \<le> 122 then c - 32 else c]"
  by (simp add: upper_def)

lemma upper_high: "128 \<le> c \<Longrightarrow> upper tbl c = tbl c"
  by (simp add: upper_def)

lemma upper_facts:
  assumes "upper_table tbl" "\<not> isspace c"
  shows "upper tbl c \<noteq> []"
    and "\<not> isspace (hd (upper tbl c))"
    and "upper tbl (hd (upper tbl c)) = [hd (upper tbl c)]"
    and "terminal (last (upper tbl c)) = terminal c"
proof -
  show "upper tbl c \<noteq> []"
  proof (cases "c < 128")
    case True
    then show ?thesis by (simp add: upper_ascii)
  next
    case False
    with assms show ?thesis by (simp add: upper_high upper_table_def)
  qed
  show "\<not> isspace (hd (upper tbl c))"
  proof (cases "c < 128")
    case True
    show ?thesis
    proof (cases "97 \<le> c \<and> c \<le> 122")
      case l: True
      then have "\<not> isspace (c - 32)" by (intro not_space_range) arith+
      with True l show ?thesis by (simp add: upper_ascii)
    next
      case False
      with True assms(2) show ?thesis by (auto simp add: upper_ascii)
    qed
  next
    case False
    with assms show ?thesis by (simp add: upper_high upper_table_def)
  qed
  show "upper tbl (hd (upper tbl c)) = [hd (upper tbl c)]"
  proof (cases "c < 128")
    case True
    show ?thesis
    proof (cases "97 \<le> c \<and> c \<le> 122")
      case l: True
      with True have "upper tbl c = [c - 32]" by (simp add: upper_ascii)
      moreover from l have "c - 32 < 128" "\<not> (97 \<le> c - 32 \<and> c - 32 \<le> 122)" by arith+
      then have "upper tbl (c - 32) = [c - 32]" by (auto simp add: upper_ascii)
      ultimately show ?thesis by simp
    next
      case False
      with True have "upper tbl c = [c]" by (auto simp add: upper_ascii)
      then show ?thesis by simp
    qed
  next
    case False
    with assms have "upper tbl (hd (tbl c)) = [hd (tbl c)]" by (simp add: upper_table_def)
    with False show ?thesis by (simp add: upper_high)
  qed
  show "terminal (last (upper tbl c)) = terminal c"
  proof (cases "c < 128")
    case True
    show ?thesis
    proof (cases "97 \<le> c \<and> c \<le> 122")
      case l: True
      then have "\<not> terminal c" "\<not> terminal (c - 32)" by (auto simp add: terminal_iff)
      with True l show ?thesis by (simp add: upper_ascii)
    next
      case False
      with True show ?thesis by (auto simp add: upper_ascii)
    qed
  next
    case False
    with assms have "\<not> terminal (last (tbl c))" by (simp add: upper_table_def)
    moreover from False have "\<not> terminal c" by (auto simp add: terminal_iff)
    ultimately show ?thesis using False by (simp add: upper_high)
  qed
qed

lemma upper_table_latin1: "upper_table latin1_upper"
  unfolding upper_table_def
proof (intro allI impI)
  fix c :: nat
  assume a: "128 \<le> c \<and> \<not> isspace c"
  consider "c = 181" | "c = 223" | "224 \<le> c \<and> c \<le> 254 \<and> c \<noteq> 247" | "c = 255"
    | "c \<noteq> 181 \<and> c \<noteq> 223 \<and> \<not> (224 \<le> c \<and> c \<le> 254 \<and> c \<noteq> 247) \<and> c \<noteq> 255"
    by blast
  then show "latin1_upper c \<noteq> [] \<and> \<not> isspace (hd (latin1_upper c))
        \<and> upper latin1_upper (hd (latin1_upper c)) = [hd (latin1_upper c)]
        \<and> \<not> terminal (last (latin1_upper c))"
  proof cases
    case 1
    have "latin1_upper 181 = [924]" "latin1_upper 924 = [924]" by (simp_all add: latin1_upper_def)
    with 1 show ?thesis by (simp add: upper_high not_space_latin terminal_iff)
  next
    case 2
    have "latin1_upper 223 = [83, 83]" by (simp add: latin1_upper_def)
    with 2 show ?thesis by (simp add: upper_ascii not_space_range terminal_iff)
  next
    case 3
    then have u: "latin1_upper c = [c - 32]" by (simp add: latin1_upper_def)
    from 3 have r: "192 \<le> c - 32" "c - 32 \<le> 222" by arith+
    then have "latin1_upper (c - 32) = [c - 32]" by (simp add: latin1_upper_def)
    moreover from r have "\<not> isspace (c - 32)" by (intro not_space_latin) arith+
    moreover from r have "\<not> terminal (c - 32)" by (simp add: terminal_iff)
    moreover from r have "128 \<le> c - 32" by arith
    ultimately show ?thesis using u by (simp add: upper_high)
  next
    case 4
    have "latin1_upper 255 = [376]" "latin1_upper 376 = [376]" by (simp_all add: latin1_upper_def)
    with 4 show ?thesis by (simp add: upper_high not_space_latin terminal_iff)
  next
    case 5
    then have u: "latin1_upper c = [c]" by (auto simp add: latin1_upper_def)
    from a have "\<not> terminal c" by (auto simp add: terminal_iff)
    with a u show ?thesis by (simp add: upper_high)
  qed
qed

text \<open>Stripping changes nothing in a text that neither starts nor ends with whitespace.\<close>

lemma strip_fixed:
  assumes "s \<noteq> []" "\<not> isspace (hd s)" "\<not> isspace (last s)"
  shows "strip s = s"
proof -
  from assms have a: "dropWhile isspace s = s" by (cases s) auto
  from assms have "rev s \<noteq> []" "\<not> isspace (hd (rev s))" by (auto simp: hd_rev)
  then have "dropWhile isspace (rev s) = rev s" by (cases "rev s") auto
  with a show ?thesis by (simp add: strip_def)
qed

lemma strip_ends:
  assumes ne: "strip s \<noteq> []"
  shows "\<not> isspace (hd (strip s))" and "\<not> isspace (last (strip s))"
proof -
  let ?d = "dropWhile isspace s"
  let ?r = "dropWhile isspace (rev ?d)"
  have st: "strip s = rev ?r" by (simp add: strip_def)
  with ne have rne: "?r \<noteq> []" by simp
  then have "\<not> isspace (hd ?r)" by (rule hd_dropWhile)
  with rne show "\<not> isspace (last (strip s))" by (simp add: st last_rev)
  have "rev ?r @ rev (takeWhile isspace (rev ?d)) = rev (takeWhile isspace (rev ?d) @ ?r)"
    by (simp only: rev_append)
  also have "\<dots> = rev (rev ?d)" by (simp only: takeWhile_dropWhile_id)
  finally have d: "?d = strip s @ rev (takeWhile isspace (rev ?d))" by (simp add: st)
  have dne: "?d \<noteq> []"
  proof
    assume "?d = []"
    with d have "strip s @ rev (takeWhile isspace (rev ?d)) = []" by (rule subst)
    with ne show False by simp
  qed
  then have "\<not> isspace (hd ?d)" by (rule hd_dropWhile)
  moreover from d ne have "hd ?d = hd (strip s)" by (metis hd_append2)
  ultimately show "\<not> isspace (hd (strip s))" by simp
qed

lemma strip_blank: "\<forall>c \<in> set s. isspace c \<Longrightarrow> strip s = []"
proof -
  assume "\<forall>c \<in> set s. isspace c"
  then have "dropWhile isspace s = []" by (induction s) auto
  then show ?thesis unfolding strip_def by (simp only: rev.simps dropWhile.simps)
qed

section \<open>Auto-punctuation\<close>

lemma auto_punctuate_blank: "strip s = [] \<Longrightarrow> auto_punctuate tbl s = []"
  by (simp add: auto_punctuate_def)

text \<open>
  The two tests of the source collapse into one: a text that holds none of the three
  marks does not end in one either.
\<close>

lemma auto_punctuate_eq:
  assumes tbl: "upper_table tbl" and ne: "strip s \<noteq> []"
  shows "auto_punctuate tbl s =
           upper tbl (hd (strip s)) @ tl (strip s)
           @ (if terminal (last (strip s)) then [] else lit ''.'')"
proof -
  let ?t = "strip s"
  let ?u = "upper tbl (hd ?t) @ tl ?t"
  from ne have sp: "\<not> isspace (hd ?t)" by (rule strip_ends)
  with tbl have une: "upper tbl (hd ?t) \<noteq> []" by (rule upper_facts)
  have l: "terminal (last ?u) = terminal (last ?t)"
  proof (cases "tl ?t = []")
    case True
    with ne have "?t = [hd ?t]" by (cases "strip s") auto
    then have "last ?t = hd ?t" by (metis last.simps)
    moreover from tbl sp have "terminal (last (upper tbl (hd ?t))) = terminal (hd ?t)"
      by (rule upper_facts)
    ultimately show ?thesis using True by simp
  next
    case False
    with ne have "last ?t = last (tl ?t)" by (cases "strip s") auto
    with False show ?thesis by simp
  qed
  have "\<not> (\<exists>ch \<in> set (lit ''.?!''). ch \<in> set ?u) \<Longrightarrow> \<not> terminal (last ?u)"
  proof -
    assume a: "\<not> (\<exists>ch \<in> set (lit ''.?!''). ch \<in> set ?u)"
    from une have "last ?u \<in> set ?u" by (intro last_in_set) simp
    with a show "\<not> terminal (last ?u)" unfolding terminal_def by blast
  qed
  then have "auto_punctuate tbl s = ?u @ (if terminal (last ?u) then [] else lit ''.'')"
    using ne by (auto simp add: auto_punctuate_def Let_def)
  with l show ?thesis by simp
qed

lemma auto_punctuate_ends:
  assumes tbl: "upper_table tbl" and ne: "strip s \<noteq> []"
  shows "auto_punctuate tbl s \<noteq> []"
    and "hd (auto_punctuate tbl s) = hd (upper tbl (hd (strip s)))"
    and "terminal (last (auto_punctuate tbl s))"
proof -
  let ?t = "strip s"
  from ne have sp: "\<not> isspace (hd ?t)" by (rule strip_ends)
  with tbl have une: "upper tbl (hd ?t) \<noteq> []" by (rule upper_facts)
  have ap: "auto_punctuate tbl s =
              upper tbl (hd ?t) @ tl ?t @ (if terminal (last ?t) then [] else lit ''.'')"
    using tbl ne by (rule auto_punctuate_eq)
  from une show "auto_punctuate tbl s \<noteq> []" by (simp add: ap)
  from une show "hd (auto_punctuate tbl s) = hd (upper tbl (hd ?t))" by (simp add: ap)
  show "terminal (last (auto_punctuate tbl s))"
  proof (cases "terminal (last ?t)")
    case True
    show ?thesis
    proof (cases "tl ?t = []")
      case tn: True
      with ne have "?t = [hd ?t]" by (cases "strip s") auto
      then have "last ?t = hd ?t" by (metis last.simps)
      moreover from tbl sp have "terminal (last (upper tbl (hd ?t))) = terminal (hd ?t)"
        by (rule upper_facts)
      ultimately show ?thesis using True tn une by (simp add: ap)
    next
      case tn: False
      with ne have "last ?t = last (tl ?t)" by (cases "strip s") auto
      with True tn show ?thesis by (simp add: ap)
    qed
  next
    case False
    then show ?thesis by (simp add: ap terminal_iff lit_period)
  qed
qed

text \<open>The literals of the examples, as code points.\<close>

lemma lit_hello:
  "lit ''hello there'' = [104, 101, 108, 108, 111, 32, 116, 104, 101, 114, 101]"
  "lit ''Hello there.'' = [72, 101, 108, 108, 111, 32, 116, 104, 101, 114, 101, 46]"
  by (simp_all add: lit_def)

lemma lit_already:
  "lit ''already punctuated!'' =
     [97, 108, 114, 101, 97, 100, 121, 32, 112, 117, 110, 99, 116, 117, 97, 116, 101, 100, 33]"
  "lit ''Already punctuated!'' =
     [65, 108, 114, 101, 97, 100, 121, 32, 112, 117, 110, 99, 116, 117, 97, 116, 101, 100, 33]"
  by (simp_all add: lit_def)

lemma auto_punctuate_hello: "auto_punctuate tbl (lit ''hello there'') = lit ''Hello there.''"
proof -
  have "strip [104, 101, 108, 108, 111, 32, 116, 104, 101, 114, 101]
          = [104, 101, 108, 108, 111, 32, 116, 104, 101, 114, 101]"
    by (rule strip_fixed) (simp_all add: isspace_def)
  then show ?thesis
    unfolding lit_hello
    by (simp add: auto_punctuate_def upper_ascii lit_marks lit_period terminal_iff)
qed

lemma auto_punctuate_already:
  "auto_punctuate tbl (lit ''already punctuated!'') = lit ''Already punctuated!''"
proof -
  have "strip [97, 108, 114, 101, 97, 100, 121, 32, 112, 117, 110, 99, 116, 117, 97,
               116, 101, 100, 33]
          = [97, 108, 114, 101, 97, 100, 121, 32, 112, 117, 110, 99, 116, 117, 97,
             116, 101, 100, 33]"
    by (rule strip_fixed) (simp_all add: isspace_def)
  then show ?thesis
    unfolding lit_already
    by (simp add: auto_punctuate_def upper_ascii lit_marks lit_period terminal_iff)
qed

text \<open>
  C5, as stated: for every non-empty input the result is the stripped text, capitalised,
  with a period appended exactly when it does not end in one of the three marks. A single
  blank is a non-empty input; it is stripped to the empty text, which does not end in a
  mark, and \<open>auto_punctuate\<close> returns it empty, with no period.
\<close>

theorem auto_punctuate_blank_counterexample:
  "lit '' '' \<noteq> [] \<and> auto_punctuate latin1_upper (lit '' '') = []
   \<and> auto_punctuate latin1_upper (lit '' '') \<noteq> punctuated latin1_upper (lit '' '')"
  by (simp add: auto_punctuate_def punctuated_def strip_def isspace_def lit_def)

text \<open>
  C5, amended: for every input that is not empty after stripping, whatever its code
  points, \<open>auto_punctuate\<close> capitalises the first character of the stripped text, leaves
  the characters after it unchanged, and appends a period if and only if the stripped
  text does not end in a period, a question mark or an exclamation mark.
\<close>

theorem auto_punctuate_nonblank:
  "upper_table tbl \<Longrightarrow> strip s \<noteq> [] \<Longrightarrow>
     auto_punctuate tbl s = punctuated tbl s
     \<and> auto_punctuate tbl s =
         upper tbl (hd (strip s)) @ tl (strip s)
         @ (if terminal (last (strip s)) then [] else lit ''.'')"
  by (cases "strip s") (auto simp add: auto_punctuate_eq punctuated_def Let_def)

theorem auto_punctuate_nonblank_witness:
  "strip [160, 223, 233, 32] \<noteq> []
   \<and> auto_punctuate latin1_upper [160, 223, 233, 32]
       = punctuated latin1_upper [160, 223, 233, 32]
   \<and> auto_punctuate latin1_upper [160, 223, 233, 32] = [83, 83, 233, 46]"
proof -
  have s: "strip [160, 223, 233, 32] = [223, 233]" by (simp add: strip_def isspace_def)
  then have h: "strip [160, 223, 233, 32] \<noteq> []" by simp
  have u: "upper latin1_upper 223 = [83, 83]" by (simp add: upper_high latin1_upper_def)
  have t: "\<not> terminal 233" by (simp add: terminal_iff)
  note n = auto_punctuate_nonblank [OF upper_table_latin1 h]
  from n have a: "auto_punctuate latin1_upper [160, 223, 233, 32]
          = punctuated latin1_upper [160, 223, 233, 32]"
    by (rule conjunct1)
  from n have "auto_punctuate latin1_upper [160, 223, 233, 32] =
          upper latin1_upper (hd (strip [160, 223, 233, 32])) @ tl (strip [160, 223, 233, 32])
          @ (if terminal (last (strip [160, 223, 233, 32])) then [] else lit ''.'')"
    by (rule conjunct2)
  then have b: "auto_punctuate latin1_upper [160, 223, 233, 32] = [83, 83, 233, 46]"
    by (simp add: s u t lit_period)
  from h a b show ?thesis by (intro conjI)
qed

text \<open>
  C6, as stated: "already punctuated!" comes back unchanged. It does not: its first
  character is capitalised like that of any other text.
\<close>

theorem auto_punctuate_unchanged_counterexample:
  "auto_punctuate latin1_upper (lit ''already punctuated!'') \<noteq> lit ''already punctuated!''"
  by (simp add: auto_punctuate_already) (simp add: lit_already)

text \<open>
  C6, amended: \<open>auto_punctuate\<close> turns "hello there" into "Hello there.", and turns
  "already punctuated!" into "Already punctuated!": no period is added, the first
  character is capitalised.
\<close>

theorem auto_punctuate_examples:
  "auto_punctuate tbl (lit ''hello there'') = lit ''Hello there.''
   \<and> auto_punctuate tbl (lit ''already punctuated!'') = lit ''Already punctuated!''"
  by (simp add: auto_punctuate_hello auto_punctuate_already)

text \<open>
  C10. \<open>auto_punctuate\<close> is idempotent on every string, whatever its code points, and on
  a string made of whitespace only (the empty string among them) it returns the empty
  string; the guard on the stripped text keeps \<open>t[0]\<close> and \<open>t[-1]\<close> from being read there.
\<close>

theorem auto_punctuate_idempotent:
  "upper_table tbl \<Longrightarrow>
     auto_punctuate tbl (auto_punctuate tbl s) = auto_punctuate tbl s
     \<and> ((\<forall>c \<in> set s. isspace c) \<longrightarrow> auto_punctuate tbl s = [])"
proof (cases "strip s = []")
  case True
  then have "auto_punctuate tbl s = []" by (rule auto_punctuate_blank)
  moreover have "auto_punctuate tbl [] = []" by (simp add: auto_punctuate_blank strip_def)
  ultimately show ?thesis by simp
next
  case False
  assume tbl: "upper_table tbl"
  let ?a = "auto_punctuate tbl s"
  from False have sp: "\<not> isspace (hd (strip s))" by (rule strip_ends)
  from tbl False have ne: "?a \<noteq> []" and hd: "hd ?a = hd (upper tbl (hd (strip s)))"
    and l: "terminal (last ?a)"
    by (rule auto_punctuate_ends)+
  from tbl sp have "\<not> isspace (hd (upper tbl (hd (strip s))))" by (rule upper_facts)
  with hd have h: "\<not> isspace (hd ?a)" by simp
  from l have "\<not> isspace (last ?a)" by (rule terminal_not_space)
  with ne h have st: "strip ?a = ?a" by (rule strip_fixed)
  from tbl sp have "upper tbl (hd (upper tbl (hd (strip s)))) = [hd (upper tbl (hd (strip s)))]"
    by (rule upper_facts)
  with hd have "upper tbl (hd ?a) = [hd ?a]" by simp
  with ne have "upper tbl (hd ?a) @ tl ?a = ?a" by simp
  moreover from ne st have "strip ?a \<noteq> []" by simp
  with tbl have "auto_punctuate tbl ?a =
      upper tbl (hd (strip ?a)) @ tl (strip ?a)
      @ (if terminal (last (strip ?a)) then [] else lit ''.'')"
    by (rule auto_punctuate_eq)
  ultimately have idem: "auto_punctuate tbl ?a = ?a" using st l by simp
  from False strip_blank have "\<not> (\<forall>c \<in> set s. isspace c)" by blast
  with idem show ?thesis by blast
qed

theorem auto_punctuate_idempotent_witness:
  "list_all isspace [32, 160, 8195]
   \<and> auto_punctuate latin1_upper [32, 160, 8195] = []
   \<and> auto_punctuate latin1_upper (auto_punctuate latin1_upper [223, 97])
       = auto_punctuate latin1_upper [223, 97]"
proof -
  have l: "list_all isspace [32, 160, 8195]" by (simp add: isspace_def)
  then have h: "\<forall>c \<in> set [32, 160, 8195]. isspace c" by (simp only: list_all_iff)
  from auto_punctuate_idempotent [OF upper_table_latin1, of "[32, 160, 8195]"] h
  have a: "auto_punctuate latin1_upper [32, 160, 8195] = []" by blast
  from auto_punctuate_idempotent [OF upper_table_latin1, of "[223, 97]"]
  have b: "auto_punctuate latin1_upper (auto_punctuate latin1_upper [223, 97])
       = auto_punctuate latin1_upper [223, 97]" by blast
  from l a b show ?thesis by simp
qed

section \<open>Exponents\<close>

declare bit_length.simps [simp del]









section \<open>Rounding\<close>

















section \<open>Single-precision values\<close>





section \<open>The mean of a row\<close>








section \<open>Rounding at work\<close>








section \<open>The recorder\<close>

lemma start_active: "stream r \<noteq> None \<Longrightarrow> start dev r = (Inr (), r)"
  by (simp add: start_def)

text \<open>
  C3. \<open>stop_and_get_audio\<close> on a recorder that holds no stream, a new recorder among
  them, returns "no audio" and leaves the recorder as it is, whatever the device would
  do: it does not raise.
\<close>

theorem stop_without_stream:
  "stream r = None \<Longrightarrow> stop_and_get_audio dev r = (Inr None, r)"
  by (simp add: stop_and_get_audio_def)

theorem stop_without_stream_witness:
  "stream new_recorder = None
   \<and> stop_and_get_audio StopRaises new_recorder = (Inr None, new_recorder)"
proof -
  have h: "stream new_recorder = None" by (simp add: new_recorder_def)
  from h stop_without_stream [OF h] show ?thesis by (rule conjI)
qed





text \<open>
  C8. \<open>start\<close> on a recorder that holds a stream changes nothing and does not ask the
  device for another stream, so the blocks enqueued since the first call stay queued;
  two calls in a row leave the recorder as one call does; and a \<open>start\<close> on a recorder
  without a stream empties the queue first, then opens the stream.
\<close>

theorem start_idempotent:
  "(stream r \<noteq> None \<longrightarrow> start dev r = (Inr (), r))
   \<and> (stream (snd (start d1 r)) \<noteq> None \<longrightarrow>
        start d2 (callback b (snd (start d1 r))) = (Inr (), callback b (snd (start d1 r))))
   \<and> snd (start dev (snd (start dev r))) = snd (start dev r)
   \<and> (stream r = None \<longrightarrow>
        queue (snd (start dev r)) = []
        \<and> start Started r = (Inr (), r\<lparr>queue := [], stream := Some (InputStream True)\<rparr>))"
proof (intro conjI impI)
  show "start dev r = (Inr (), r)" if "stream r \<noteq> None"
    using that by (rule start_active)
  show "start d2 (callback b (snd (start d1 r))) = (Inr (), callback b (snd (start d1 r)))"
    if "stream (snd (start d1 r)) \<noteq> None"
  proof -
    from that have "stream (callback b (snd (start d1 r))) \<noteq> None"
      by (simp add: callback_def)
    then show ?thesis by (rule start_active)
  qed
  show "snd (start dev (snd (start dev r))) = snd (start dev r)"
    by (cases dev) (simp_all add: start_def Let_def)
  show "queue (snd (start dev r)) = []" if "stream r = None"
    using that by (cases dev) (simp_all add: start_def Let_def)
  show "start Started r = (Inr (), r\<lparr>queue := [], stream := Some (InputStream True)\<rparr>)"
    if "stream r = None"
    using that by (simp add: start_def Let_def)
qed

theorem start_idempotent_witness:
  "stream (new_recorder\<lparr>queue := [[[1]]]\<rparr>) = None
   \<and> start Started (new_recorder\<lparr>queue := [[[1]]]\<rparr>)
       = (Inr (), new_recorder\<lparr>queue := [], stream := Some (InputStream True)\<rparr>)
   \<and> stream (snd (start Started (new_recorder\<lparr>queue := [[[1]]]\<rparr>))) \<noteq> None
   \<and> start OpenRaises
        (callback [[1 / 2]] (snd (start Started (new_recorder\<lparr>queue := [[[1]]]\<rparr>))))
       = (Inr (), callback [[1 / 2]] (snd (start Started (new_recorder\<lparr>queue := [[[1]]]\<rparr>))))
   \<and> queue (callback [[1 / 2]] (snd (start Started (new_recorder\<lparr>queue := [[[1]]]\<rparr>))))
       = [[[1 / 2]]]"
proof -
  let ?r = "new_recorder\<lparr>queue := [[[1]]]\<rparr>"
  have h: "stream ?r = None" by (simp add: new_recorder_def)
  from start_idempotent [of ?r Started Started OpenRaises "[[1 / 2]]"] h
  have s: "start Started ?r = (Inr (), ?r\<lparr>queue := [], stream := Some (InputStream True)\<rparr>)"
    by blast
  then have a: "stream (snd (start Started ?r)) \<noteq> None" by simp
  from start_idempotent [of ?r Started Started OpenRaises "[[1 / 2]]"] a
  have k: "start OpenRaises (callback [[1 / 2]] (snd (start Started ?r)))
             = (Inr (), callback [[1 / 2]] (snd (start Started ?r)))"
    by blast
  from s have q: "queue (callback [[1 / 2]] (snd (start Started ?r))) = [[[1 / 2]]]"
    by (simp add: callback_def)
  from h s a k q show ?thesis by simp
qed

section \<open>The recording state machine\<close>

lemmas controller_defs =
  run_def hold_to_talk_down_def hold_to_talk_up_def toggle_recording_def start_recording_def
  stop_and_transcribe_def set_recording_def spawn_def start_def stop_and_get_audio_def
  callback_def new_controller_def new_recorder_def Let_def

text \<open>One event appends one notification when it changes the flag, and none otherwise.\<close>

lemma step_notifies:
  "recording_changed (step c ev) =
     recording_changed c
     @ (if recording (step c ev) \<noteq> recording c then [recording (step c ev)] else [])"
  by (cases ev)
    (auto simp add: hold_to_talk_down_def hold_to_talk_up_def toggle_recording_def
      start_recording_def stop_and_transcribe_def set_recording_def spawn_def Let_def
      split: prod.splits sum.splits option.splits)

lemma run_notifies: "recording_changed (run c evs) = recording_changed c @ transitions c evs"
  unfolding run_def
proof (induction evs arbitrary: c)
  case Nil
  then show ?case by simp
next
  case (Cons ev evs)
  have "recording_changed (foldl step (step c ev) evs)
          = recording_changed (step c ev) @ transitions (step c ev) evs"
    by (rule Cons.IH)
  then show ?case by (simp add: step_notifies [of c ev])
qed

text \<open>
  C1. Over every finite sequence of \<open>hold_to_talk_down\<close>, \<open>hold_to_talk_up\<close> and
  \<open>toggle_recording\<close> calls, run one after the other from any state and under any
  behaviour of the device, the notifications emitted are exactly the changes of the
  recording flag, in order, each carrying the new value; \<open>hold_to_talk_down\<close> while
  recording and \<open>hold_to_talk_up\<close> while idle change nothing and emit nothing.
\<close>

theorem notifications_follow_transitions:
  "recording_changed (run c evs) = recording_changed c @ transitions c evs
   \<and> (recording c \<longrightarrow> hold_to_talk_down dev c = c)
   \<and> (\<not> recording c \<longrightarrow> hold_to_talk_up dev c = c)"
  by (simp add: run_notifies hold_to_talk_down_def hold_to_talk_up_def)

theorem notifications_follow_transitions_witness:
  "recording_changed
     (run (new_controller [])
        [HoldDown \<lparr>on_start = Started, on_stop = Stopped\<rparr>,
         HoldDown \<lparr>on_start = Started, on_stop = Stopped\<rparr>,
         Block [[1 / 2]],
         HoldUp \<lparr>on_start = Started, on_stop = Stopped\<rparr>,
         HoldUp \<lparr>on_start = Started, on_stop = Stopped\<rparr>,
         Toggle \<lparr>on_start = OpenRaises, on_stop = Stopped\<rparr>,
         Toggle \<lparr>on_start = Started, on_stop = Stopped\<rparr>,
         Toggle \<lparr>on_start = Started, on_stop = StopRaises\<rparr>])
     = [True, False, True, False]
   \<and> recording (run (new_controller []) [Toggle \<lparr>on_start = Started, on_stop = Stopped\<rparr>])
   \<and> hold_to_talk_down \<lparr>on_start = Started, on_stop = Stopped\<rparr>
        (run (new_controller []) [Toggle \<lparr>on_start = Started, on_stop = Stopped\<rparr>])
       = run (new_controller []) [Toggle \<lparr>on_start = Started, on_stop = Stopped\<rparr>]
   \<and> \<not> recording (new_controller [])
   \<and> hold_to_talk_up \<lparr>on_start = Started, on_stop = Stopped\<rparr> (new_controller [])
       = new_controller []"
proof -
  let ?ok = "\<lparr>on_start = Started, on_stop = Stopped\<rparr>"
  let ?evs = "[HoldDown ?ok, HoldDown ?ok, Block [[1 / 2]], HoldUp ?ok, HoldUp ?ok,
         Toggle \<lparr>on_start = OpenRaises, on_stop = Stopped\<rparr>, Toggle ?ok,
         Toggle \<lparr>on_start = Started, on_stop = StopRaises\<rparr>]"
  have t: "transitions (new_controller []) ?evs = [True, False, True, False]"
    by (simp add: controller_defs)
  have e: "recording_changed (new_controller []) = []" by (simp add: new_controller_def)
  have r: "recording (run (new_controller []) [Toggle ?ok])" by (simp add: controller_defs)
  have i: "\<not> recording (new_controller [])" by (simp add: new_controller_def)
  from notifications_follow_transitions [of "new_controller []" ?evs ?ok] t e i
  have a: "recording_changed (run (new_controller []) ?evs) = [True, False, True, False]"
    and b: "hold_to_talk_up ?ok (new_controller []) = new_controller []"
    by simp_all
  from notifications_follow_transitions [of "run (new_controller []) [Toggle ?ok]" "[]" ?ok] r
  have c: "hold_to_talk_down ?ok (run (new_controller []) [Toggle ?ok])
             = run (new_controller []) [Toggle ?ok]"
    by simp
  from a r c i b show ?thesis by simp
qed

section \<open>A start that fails\<close>

text \<open>
  When \<open>AudioRecorder.start\<close> raises, \<open>_start_recording\<close> neither sets the flag nor
  emits a notification; and when it is the construction of the stream that raises, the
  recorder still holds no stream.
\<close>

lemma start_recording_failed:
  "fst (start (on_start dev) (recorder c)) = Inl e \<Longrightarrow>
     recording (start_recording dev c) = recording c
     \<and> recording_changed (start_recording dev c) = recording_changed c"
  by (auto simp add: start_recording_def split: prod.splits sum.splits)

lemma start_recording_open_failed:
  "stream (recorder c) = None \<Longrightarrow> on_start dev = OpenRaises \<Longrightarrow>
     stream (recorder (start_recording dev c)) = None"
  by (auto simp add: start_recording_def start_def split: prod.splits sum.splits)

text \<open>
  C2. After a failed start the flag is still False, no notification was emitted, and no
  stream is held. The code at the input where the stream is constructed and its
  \<open>start()\<close> raises: on a new controller, \<open>_start_recording\<close> leaves the flag False and
  emits nothing, but the recorder keeps the stream that never ran; the next
  \<open>hold_to_talk_down\<close> finds a stream, opens none (the device would refuse here) and
  moves to Recording.
\<close>

theorem start_failure_keeps_stream:
  "recording (start_recording \<lparr>on_start = StartRaises, on_stop = Stopped\<rparr> (new_controller []))
     = False
   \<and> recording_changed
        (start_recording \<lparr>on_start = StartRaises, on_stop = Stopped\<rparr> (new_controller []))
     = []
   \<and> stream (recorder
        (start_recording \<lparr>on_start = StartRaises, on_stop = Stopped\<rparr> (new_controller [])))
     = Some (InputStream False)
   \<and> recording (hold_to_talk_down \<lparr>on_start = OpenRaises, on_stop = Stopped\<rparr>
        (start_recording \<lparr>on_start = StartRaises, on_stop = Stopped\<rparr> (new_controller [])))
   \<and> stream (recorder (hold_to_talk_down \<lparr>on_start = OpenRaises, on_stop = Stopped\<rparr>
        (start_recording \<lparr>on_start = StartRaises, on_stop = Stopped\<rparr> (new_controller []))))
     = Some (InputStream False)"
  by (simp add: controller_defs)

section \<open>Sessions without audio\<close>

lemma stop_and_transcribe_empty:
  "queue (recorder c) = [] \<Longrightarrow> workers (stop_and_transcribe dev c) = workers c"
  by (auto simp add: stop_and_transcribe_def stop_and_get_audio_def set_recording_def
      Let_def spawn_def)

lemma start_recording_queue:
  "stream (recorder c) = None \<Longrightarrow> queue (recorder (start_recording dev c)) = []"
  by (cases "on_start dev")
    (simp_all add: start_recording_def start_def set_recording_def Let_def)

lemma start_recording_workers: "workers (start_recording dev c) = workers c"
  by (simp add: start_recording_def set_recording_def split: prod.splits sum.splits)

text \<open>
  C4. A session without a single block gives "no audio": \<open>stop_and_get_audio\<close> on a
  stream with an empty queue, and right after a \<open>start\<close>, returns None when the
  stream stops normally. The controller's stop path then spawns no worker, also when the
  stream raises on stopping; so a toggle or a key press followed at once by its
  counterpart submits nothing.
\<close>

theorem empty_session_submits_nothing:
  "(stream r \<noteq> None \<and> queue r = [] \<longrightarrow> fst (stop_and_get_audio Stopped r) = Inr None)
   \<and> (stream r = None \<longrightarrow> fst (stop_and_get_audio Stopped (snd (start Started r))) = Inr None)
   \<and> (queue (recorder c) = [] \<longrightarrow> workers (stop_and_transcribe dev c) = workers c)
   \<and> (\<not> recording c \<and> stream (recorder c) = None \<longrightarrow>
        workers (run c [Toggle d1, Toggle d2]) = workers c
        \<and> workers (run c [HoldDown d1, HoldUp d2]) = workers c)"
proof (intro conjI impI)
  show "fst (stop_and_get_audio Stopped r) = Inr None" if "stream r \<noteq> None \<and> queue r = []"
    using that by (simp add: stop_and_get_audio_def)
  show "fst (stop_and_get_audio Stopped (snd (start Started r))) = Inr None" if "stream r = None"
    using that by (simp add: stop_and_get_audio_def start_def Let_def)
  show "workers (stop_and_transcribe dev c) = workers c" if "queue (recorder c) = []"
    using that by (rule stop_and_transcribe_empty)
next
  assume a: "\<not> recording c \<and> stream (recorder c) = None"
  let ?c = "start_recording d1 c"
  from a have q: "queue (recorder ?c) = []" by (simp add: start_recording_queue)
  have w: "workers ?c = workers c" by (rule start_recording_workers)
  from q have s: "workers (stop_and_transcribe d2 ?c) = workers ?c"
    by (rule stop_and_transcribe_empty)
  have s': "workers (start_recording d2 ?c) = workers ?c" by (rule start_recording_workers)
  from a w s s' show "workers (run c [Toggle d1, Toggle d2]) = workers c"
    by (simp add: run_def toggle_recording_def)
  from a w s show "workers (run c [HoldDown d1, HoldUp d2]) = workers c"
    by (simp add: run_def hold_to_talk_down_def hold_to_talk_up_def)
qed

theorem empty_session_submits_nothing_witness:
  "stream (snd (start Started new_recorder)) \<noteq> None
   \<and> queue (snd (start Started new_recorder)) = []
   \<and> fst (stop_and_get_audio Stopped (snd (start Started new_recorder))) = Inr None
   \<and> stream new_recorder = None
   \<and> queue (recorder (new_controller [])) = []
   \<and> workers (stop_and_transcribe \<lparr>on_start = Started, on_stop = Stopped\<rparr> (new_controller []))
       = []
   \<and> \<not> recording (new_controller []) \<and> stream (recorder (new_controller [])) = None
   \<and> workers (run (new_controller [])
        [Toggle \<lparr>on_start = Started, on_stop = Stopped\<rparr>,
         Toggle \<lparr>on_start = Started, on_stop = Stopped\<rparr>]) = []
   \<and> workers (run (new_controller [])
        [HoldDown \<lparr>on_start = Started, on_stop = Stopped\<rparr>,
         HoldUp \<lparr>on_start = Started, on_stop = Stopped\<rparr>]) = []"
proof -
  let ?ok = "\<lparr>on_start = Started, on_stop = Stopped\<rparr>"
  let ?r = "snd (start Started new_recorder)"
  let ?c = "new_controller []"
  have h1: "stream ?r \<noteq> None \<and> queue ?r = []"
    by (simp add: start_def new_recorder_def Let_def)
  have h2: "stream new_recorder = None" by (simp add: new_recorder_def)
  have h3: "queue (recorder ?c) = []" by (simp add: new_controller_def new_recorder_def)
  have h4: "\<not> recording ?c \<and> stream (recorder ?c) = None"
    by (simp add: new_controller_def new_recorder_def)
  have w: "workers ?c = []" by (simp add: new_controller_def)
  from empty_session_submits_nothing [of ?r ?c ?ok ?ok ?ok] h1 h3 h4 w
  have "fst (stop_and_get_audio Stopped ?r) = Inr None"
    and "workers (stop_and_transcribe ?ok ?c) = []"
    and "workers (run ?c [Toggle ?ok, Toggle ?ok]) = []"
    and "workers (run ?c [HoldDown ?ok, HoldUp ?ok]) = []"
    by simp_all
  with h1 h2 h3 h4 show ?thesis by simp
qed

section \<open>The order of what the controller does\<close>

lemma notified_append: "notified (as @ bs) = notified as @ notified bs"
  by (induction as rule: notified.induct) simp_all

lemma started_append: "started (as @ bs) = started as @ started bs"
  by (induction as rule: started.induct) simp_all

lemma published_append: "published (as @ bs) = published as @ published bs"
  by (induction as rule: published.induct) simp_all

text \<open>
  A controller whose lists agree with its trace, a new one among them, stays so under
  every event and under the worker.
\<close>

lemma agrees_new: "agrees (new_controller cfg)"
  by (simp add: agrees_def new_controller_def)

lemma agrees_set_recording: "agrees c \<Longrightarrow> agrees (set_recording v c)"
  by (simp add: agrees_def set_recording_def notified_append started_append published_append)

lemma agrees_spawn: "agrees c \<Longrightarrow> agrees (spawn a c)"
  by (simp add: agrees_def spawn_def notified_append started_append published_append)

lemma agrees_recorder: "agrees c \<Longrightarrow> agrees (c\<lparr>recorder := r\<rparr>)"
  by (simp add: agrees_def)

lemma agrees_start_recording: "agrees c \<Longrightarrow> agrees (start_recording dev c)"
  by (auto simp add: start_recording_def agrees_set_recording agrees_recorder
      split: prod.splits sum.splits)

lemma agrees_stop_and_transcribe: "agrees c \<Longrightarrow> agrees (stop_and_transcribe dev c)"
  by (auto simp add: stop_and_transcribe_def Let_def agrees_set_recording agrees_recorder
      agrees_spawn split: prod.splits sum.splits option.splits)

lemma agrees_step: "agrees c \<Longrightarrow> agrees (step c ev)"
  by (cases ev)
    (auto simp add: hold_to_talk_down_def hold_to_talk_up_def toggle_recording_def
      agrees_start_recording agrees_stop_and_transcribe agrees_recorder)

lemma agrees_run: "agrees c \<Longrightarrow> agrees (run c evs)"
  unfolding run_def by (induction evs arbitrary: c) (simp_all add: agrees_step)

lemma agrees_transcribe_and_emit: "agrees c \<Longrightarrow> agrees (transcribe_and_emit tbl model audio c)"
  by (auto simp add: transcribe_and_emit_def Let_def agrees_def notified_append
      started_append published_append split: sum.splits)

text \<open>
  The stop path in the order of the source: the flag is cleared and the notification
  emitted, the recorder is stopped, and only then a worker may be started.
\<close>

lemma stop_and_transcribe_trace:
  "trace (stop_and_transcribe dev c) =
     trace c @ [SetRecording False, EmitRecordingChanged False]
     @ (case fst (stop_and_get_audio (on_stop dev) (recorder c)) of
          Inr (Some a) \<Rightarrow> if length a = 0 then [] else [StartThread a]
        | _ \<Rightarrow> [])"
  by (simp add: stop_and_transcribe_def set_recording_def spawn_def Let_def
      split: prod.splits sum.splits option.splits)

lemma stop_and_transcribe_flag: "recording (stop_and_transcribe dev c) = False"
  by (simp add: stop_and_transcribe_def set_recording_def spawn_def Let_def
      split: prod.splits sum.splits option.splits)

section \<open>The worker\<close>

lemma transcribe_and_emit_keeps:
  "recording (transcribe_and_emit tbl model audio c) = recording c
   \<and> recording_changed (transcribe_and_emit tbl model audio c) = recording_changed c
   \<and> recorder (transcribe_and_emit tbl model audio c) = recorder c
   \<and> workers (transcribe_and_emit tbl model audio c) = workers c"
  by (simp add: transcribe_and_emit_def Let_def split: sum.splits)

text \<open>
  C9. When the model call raises, or when the segments joined with single blanks and
  stripped of whitespace (of every code point that \<open>str.strip()\<close> removes) are empty,
  the worker changes nothing: no text is published. In every case the worker leaves the
  recording flag, the notifications emitted and the recorder as they are, and adds to the
  trace at most one emission of text. The stop path clears the flag and emits the
  notification first; a worker thread, if one is started, is started after both.
\<close>

theorem worker_publishes_nothing:
  "(model audio (lang_arg (config c)) = Inl e \<longrightarrow> transcribe_and_emit tbl model audio c = c)
   \<and> (model audio (lang_arg (config c)) = Inr parts \<and> strip (join (lit '' '') parts) = [] \<longrightarrow>
        transcribe_and_emit tbl model audio c = c)
   \<and> recording (transcribe_and_emit tbl model audio c) = recording c
   \<and> recording_changed (transcribe_and_emit tbl model audio c) = recording_changed c
   \<and> recorder (transcribe_and_emit tbl model audio c) = recorder c
   \<and> notified (trace (transcribe_and_emit tbl model audio c)) = notified (trace c)
   \<and> started (trace (transcribe_and_emit tbl model audio c)) = started (trace c)
   \<and> recording (stop_and_transcribe dev c) = False
   \<and> (trace (stop_and_transcribe dev c)
         = trace c @ [SetRecording False, EmitRecordingChanged False]
       \<or> (\<exists>a. trace (stop_and_transcribe dev c)
                 = trace c @ [SetRecording False, EmitRecordingChanged False, StartThread a]))"
proof (intro conjI impI)
  show "transcribe_and_emit tbl model audio c = c"
    if "model audio (lang_arg (config c)) = Inl e"
    using that by (simp add: transcribe_and_emit_def)
  show "transcribe_and_emit tbl model audio c = c"
    if "model audio (lang_arg (config c)) = Inr parts \<and> strip (join (lit '' '') parts) = []"
    using that by (simp add: transcribe_and_emit_def)
  show "recording (transcribe_and_emit tbl model audio c) = recording c"
    and "recording_changed (transcribe_and_emit tbl model audio c) = recording_changed c"
    and "recorder (transcribe_and_emit tbl model audio c) = recorder c"
    by (simp_all add: transcribe_and_emit_keeps)
  show "notified (trace (transcribe_and_emit tbl model audio c)) = notified (trace c)"
    and "started (trace (transcribe_and_emit tbl model audio c)) = started (trace c)"
    by (auto simp add: transcribe_and_emit_def Let_def notified_append started_append
        split: sum.splits)
  show "recording (stop_and_transcribe dev c) = False" by (rule stop_and_transcribe_flag)
  show "trace (stop_and_transcribe dev c)
         = trace c @ [SetRecording False, EmitRecordingChanged False]
       \<or> (\<exists>a. trace (stop_and_transcribe dev c)
                 = trace c @ [SetRecording False, EmitRecordingChanged False, StartThread a])"
    by (auto simp add: stop_and_transcribe_trace split: sum.splits option.splits)
qed

theorem worker_publishes_nothing_witness:
  "(\<lambda>a l. Inl ModelError) [1 / 2] (lang_arg (config (new_controller []))) = Inl ModelError
   \<and> transcribe_and_emit latin1_upper (\<lambda>a l. Inl ModelError) [1 / 2] (new_controller [])
       = new_controller []
   \<and> (\<lambda>a l. Inr [[160], [], [8195]]) [1 / 2] (lang_arg (config (new_controller [])))
       = Inr [[160], [], [8195]]
   \<and> strip (join (lit '' '') [[160], [], [8195]]) = []
   \<and> transcribe_and_emit latin1_upper (\<lambda>a l. Inr [[160], [], [8195]]) [1 / 2]
        (new_controller [])
       = new_controller []
   \<and> text_ready
        (transcribe_and_emit latin1_upper (\<lambda>a l. Inr [[160], [], [8195]]) [1 / 2]
           (new_controller []))
       = []"
proof -
  let ?c = "new_controller []"
  let ?bad = "(\<lambda>a l. Inl ModelError) :: whisper"
  let ?blank = "(\<lambda>a l. Inr [[160], [], [8195]]) :: whisper"
  have h1: "?bad [1 / 2] (lang_arg (config ?c)) = Inl ModelError" by simp
  have j: "join (lit '' '') [[160], [], [8195]] = [160, 32, 32, 8195]" by (simp add: lit_def)
  have s: "strip [160, 32, 32, 8195] = []" by (simp add: strip_def isspace_def)
  have h2a: "?blank [1 / 2] (lang_arg (config ?c)) = Inr [[160], [], [8195]]" by simp
  have h2b: "strip (join (lit '' '') [[160], [], [8195]]) = []" by (simp only: j s)
  from h2a h2b
  have h2: "?blank [1 / 2] (lang_arg (config ?c)) = Inr [[160], [], [8195]]
            \<and> strip (join (lit '' '') [[160], [], [8195]]) = []"
    by (rule conjI)
  from worker_publishes_nothing [of ?bad "[1 / 2]" ?c ModelError latin1_upper] h1
  have a: "transcribe_and_emit latin1_upper ?bad [1 / 2] ?c = ?c" by blast
  from worker_publishes_nothing [of ?blank "[1 / 2]" ?c _ latin1_upper "[[160], [], [8195]]"] h2
  have b: "transcribe_and_emit latin1_upper ?blank [1 / 2] ?c = ?c" by blast
  have t: "text_ready ?c = []" by (simp add: new_controller_def)
  from h1 h2 a b t show ?thesis by simp
qed

end
